theory Spec2Isabelle
  imports Complex_Main "HOL-Library.AList" "HOL-Library.Multiset"
begin


section \<open>Numbers and points\<close>

text \<open>
  The program computes on JavaScript numbers.  They are modelled as exact reals: rounding,
  signed zeros, infinities and NaN are outside the model.  A \<open>Point\<close> is an object with the
  fields \<open>x\<close> and \<open>y\<close>; the source compares points with \<open>===\<close>, \<open>!==\<close> and
  \<open>Array.prototype.includes\<close>, that is by object identity, so the model gives every point
  object an identity \<open>obj\<close> next to its coordinates.  HOL equality on \<open>Point\<close> is then the
  source's \<open>===\<close>, and two point objects with the same coordinates can be told apart.
\<close>

datatype Point = Point (px: real) (py: real) (obj: nat)

text \<open>\<open>id\<close> of main.ts, the key of a point in an adjacency map: the string
  \<open>(x,y)\<close>, modelled by the pair of coordinates it prints.\<close>

type_synonym key = "real \<times> real"

definition id_pt :: "Point \<Rightarrow> key" where
  "id_pt p = (px p, py p)"

definition norm2 :: "Point \<Rightarrow> real" where
  "norm2 p = px p * px p + py p * py p"

section \<open>Determinants\<close>

subsection \<open>main.ts: expansion over the permutations \<open>S(n)\<close>\<close>

text \<open>
  \<open>S(n)\<close> lists the permutations of \<open>1..n\<close> with their signs: \<open>n\<close> is inserted at every
  position \<open>i\<close> of every permutation of \<open>1..n-1\<close>, with sign \<open>(-1)^(n - i + 1)\<close> times the
  old one.  \<open>S(0)\<close> calls \<open>S(-1)\<close>, \<open>S(-2)\<close>, ... and never returns: \<open>None\<close>.
\<close>

type_synonym Permutation = "nat list"

fun S :: "nat \<Rightarrow> (Permutation \<times> real) list option" where
  "S 0 = None"
| "S (Suc 0) = Some [([1], 1)]"
| "S (Suc (Suc m)) =
     (case S (Suc m) of
        None \<Rightarrow> None
      | Some prev \<Rightarrow>
          Some (concat (map (\<lambda>(p, sign_p).
                  map (\<lambda>i. (take i p @ [Suc (Suc m)] @ drop i p,
                             (- 1) ^ (Suc (Suc m) - i + 1) * sign_p))
                      [0..<Suc (Suc m)]) prev)))"




text \<open>\<open>det\<close> of main.ts: \<open>d\<close> accumulates, for each permutation, the sign times the
  entries \<open>M[i][p[i] - 1]\<close>.\<close>

definition det :: "real list list \<Rightarrow> real option" where
  "det M =
     (let n = length M in
      case S n of
        None \<Rightarrow> None
      | Some perms \<Rightarrow>
          Some (foldl (\<lambda>d (p, sign).
                  d + foldl (\<lambda>v i. v * (M ! i ! (p ! i - 1))) sign [0..<n]) 0 perms))"

subsection \<open>src/unnamed/part_000: expansion along the first row\<close>


subsection \<open>The determinant of the spec\<close>





section \<open>Geometric predicates\<close>

text \<open>
  \<open>belowLine\<close>, \<open>aboveLine\<close> and \<open>inCircle\<close> first test \<open>[a, b].includes(p)\<close>, which
  compares objects, then take the sign of a determinant.  \<open>[a, b].sort((l, r) => l.x - r.x)\<close>
  is the stable sort of the two end points by \<open>x\<close>; its elements \<open>0\<close> and \<open>1\<close> are the new
  \<open>a\<close> and \<open>b\<close>.  \<open>det\<close> is called on a literal matrix of three or four rows, where it
  always returns (lemmas \<open>det_3\<close>, \<open>det_4\<close>).
\<close>

definition belowLine :: "Point \<Rightarrow> Point \<times> Point \<Rightarrow> bool" where
  "belowLine p line =
     (case line of (a, b) \<Rightarrow>
        if p \<in> set [a, b] then False
        else let ab = sort_key px [a, b]; a = ab ! 0; b = ab ! 1 in
          (case det [[px a, py a, 1], [px b, py b, 1], [px p, py p, 1]] of
             Some d \<Rightarrow> d < 0
           | None \<Rightarrow> False))"

definition aboveLine :: "Point \<Rightarrow> Point \<times> Point \<Rightarrow> bool" where
  "aboveLine p line =
     (case line of (a, b) \<Rightarrow>
        if p \<in> set [a, b] then False
        else let ab = sort_key px [a, b]; a = ab ! 0; b = ab ! 1 in
          (case det [[px a, py a, 1], [px b, py b, 1], [px p, py p, 1]] of
             Some d \<Rightarrow> 0 < d
           | None \<Rightarrow> False))"

definition inCircle :: "Point \<Rightarrow> Point \<times> Point \<times> Point \<Rightarrow> bool" where
  "inCircle p tri =
     (case tri of (a, b, c) \<Rightarrow>
        if p \<in> set [a, b, c] then False
        else (case det [[px a, py a, norm2 a, 1],
                        [px b, py b, norm2 b, 1],
                        [px c, py c, norm2 c, 1],
                        [px p, py p, norm2 p, 1]] of
                Some d \<Rightarrow> 0 < d
              | None \<Rightarrow> False))"

text \<open>\<open>centerOf\<close> returns a new point object; \<open>fresh\<close> is the identity it gets.  A zero
  \<open>Mxy\<close> (collinear points) gives an infinity or NaN in the source and is outside the model.\<close>

definition centerOf :: "Point \<Rightarrow> Point \<Rightarrow> Point \<Rightarrow> nat \<Rightarrow> Point" where
  "centerOf p q r fresh =
     (case (det [[px p, py p, 1], [px q, py q, 1], [px r, py r, 1]],
            det [[norm2 p, py p, 1], [norm2 q, py q, 1], [norm2 r, py r, 1]],
            det [[norm2 p, px p, 1], [norm2 q, px q, 1], [norm2 r, px r, 1]]) of
        (Some Mxy, Some Mny, Some Mnx) \<Rightarrow> Point (0.5 * (Mny / Mxy)) (- 0.5 * (Mnx / Mxy)) fresh
      | _ \<Rightarrow> Point 0 0 fresh)"

section \<open>Link rings\<close>

record Link =
  point :: Point
  angle :: real

record Ring =
  center :: Point
  links :: "Link list"

datatype error = InsufficientPoints | MalformedTriangulation | TypeError

text \<open>\<open>Math.atan2(dy, dx)\<close> on exact reals: the angle of the vector \<open>(dx, dy)\<close> in
  \<open>(-\<pi>, \<pi>]\<close>, and \<open>0\<close> for the zero vector.\<close>

definition atan2 :: "real \<Rightarrow> real \<Rightarrow> real" where
  "atan2 dy dx =
     (if 0 < dx then arctan (dy / dx)
      else if dx < 0 then (if 0 \<le> dy then arctan (dy / dx) + pi else arctan (dy / dx) - pi)
      else if 0 < dy then pi / 2
      else if dy < 0 then - (pi / 2)
      else 0)"

text \<open>\<open>minus\<close> of main.ts; only the coordinates of the difference are ever read.\<close>

definition minus_pt :: "Point \<Rightarrow> Point \<Rightarrow> real \<times> real" where
  "minus_pt p q = (px p - px q, py p - py q)"

text \<open>A JavaScript array read \<open>xs[i]\<close>: \<open>undefined\<close> (here \<open>None\<close>) out of range, also for
  a negative index; and \<open>u || v\<close> on values that are objects or \<open>undefined\<close>.\<close>

definition elem_at :: "'a list \<Rightarrow> int \<Rightarrow> 'a option" where
  "elem_at xs i = (if 0 \<le> i \<and> i < int (length xs) then Some (xs ! nat i) else None)"

definition orelse :: "'a option \<Rightarrow> 'a option \<Rightarrow> 'a option" where
  "orelse u v = (case u of Some a \<Rightarrow> Some a | None \<Rightarrow> v)"

text \<open>The \<open>while\<close> loop of \<open>nextConnectionFromAngle\<close>, from index \<open>i\<close>: the index at which
  it stops.\<close>

function scan :: "real \<Rightarrow> real \<Rightarrow> Link list \<Rightarrow> nat \<Rightarrow> nat" where
  "scan a direction ls i =
     (if i < length ls then
        (if angle (ls ! i) = a \<and> direction \<le> 0 then i
         else if a < angle (ls ! i) then i
         else scan a direction ls (i + 1))
      else i)"
  by pat_completeness auto
termination
  by (relation "measure (\<lambda>(a, direction, ls, i). length ls - i)") auto

declare scan.simps [simp del]

text \<open>The ring argument is \<open>connections[id(p)]\<close> at every call: \<open>undefined\<close> (\<open>None\<close>)
  when the key is missing, and then reading \<open>ring.links\<close> raises a TypeError, as does
  reading \<open>.point\<close> of a missing link.\<close>

definition nextConnectionFromAngle :: "real \<Rightarrow> Ring option \<Rightarrow> real \<Rightarrow> error + Point" where
  "nextConnectionFromAngle a ring direction =
     (case ring of
        None \<Rightarrow> Inl TypeError
      | Some ring \<Rightarrow>
          let i = int (scan a direction (links ring) 0);
              nextConnection =
                (if 0 < direction then orelse (elem_at (links ring) i) (elem_at (links ring) 0)
                 else orelse (elem_at (links ring) (i - 1))
                             (elem_at (links ring) (int (length (links ring)) - 1)))
          in (case nextConnection of None \<Rightarrow> Inl TypeError | Some l \<Rightarrow> Inr (point l)))"

text \<open>The first argument of \<open>nextConnection\<close> is a number or a point (\<open>typeof p\<close>).\<close>

datatype Reference = Angle real | PointRef Point

definition nextConnection :: "Reference \<Rightarrow> Ring option \<Rightarrow> real \<Rightarrow> error + Point" where
  "nextConnection p ring direction =
     (case p of
        Angle a \<Rightarrow> nextConnectionFromAngle a ring direction
      | PointRef q \<Rightarrow>
          (case ring of
             None \<Rightarrow> Inl TypeError
           | Some r \<Rightarrow>
               let D = minus_pt q (center r); a = atan2 (snd D) (fst D)
               in nextConnectionFromAngle a ring direction))"

text \<open>\<open>(aboveLine(q, line) || null) && q\<close>: the point \<open>q\<close> when it is above the line,
  else \<open>null\<close>.\<close>

definition nextConnectionAbove ::
  "Reference \<Rightarrow> Ring option \<Rightarrow> real \<Rightarrow> Point \<times> Point \<Rightarrow> error + Point option" where
  "nextConnectionAbove p ring direction line =
     (case nextConnection p ring direction of
        Inl e \<Rightarrow> Inl e
      | Inr q \<Rightarrow> Inr (if aboveLine q line then Some q else None))"

section \<open>Meshes\<close>

text \<open>
  \<open>Connections\<close> is an object used as a dictionary from keys to rings.  Its keys keep
  their insertion order, which \<open>Object.values(connections)[0]\<close> reads, so it is an association
  list: \<open>AList.update\<close> replaces the value of a key in place and appends a new key, as an
  assignment \<open>connections[k] = v\<close> does, and \<open>map_of\<close> is the read \<open>connections[k]\<close>.
\<close>

type_synonym Connections = "(key \<times> Ring) list"

definition emptyConnections :: "Point list \<Rightarrow> Connections" where
  "emptyConnections pts =
     foldl (\<lambda>connections pt. AList.update (id_pt pt) \<lparr>center = pt, links = []\<rparr> connections)
       [] pts"

definition addPoint :: "Point \<Rightarrow> Connections \<Rightarrow> Connections" where
  "addPoint p connections = AList.update (id_pt p) \<lparr>center = p, links = []\<rparr> connections"

text \<open>\<open>ring.links.sort((c, d) => c.angle - d.angle)\<close> is a stable sort by angle.\<close>

definition addConnection :: "Point \<Rightarrow> Ring option \<Rightarrow> error + Ring" where
  "addConnection p ring =
     (case ring of
        None \<Rightarrow> Inl TypeError
      | Some r \<Rightarrow>
          let D = minus_pt p (center r)
          in Inr (r\<lparr>links := sort_key angle
                      (links r @ [\<lparr>point = p, angle = atan2 (snd D) (fst D)\<rparr>])\<rparr>))"

definition removeConnection :: "Point \<Rightarrow> Ring option \<Rightarrow> error + Ring" where
  "removeConnection p ring =
     (case ring of
        None \<Rightarrow> Inl TypeError
      | Some r \<Rightarrow> Inr (r\<lparr>links := filter (\<lambda>c. point c \<noteq> p) (links r)\<rparr>))"

definition connect :: "Point \<Rightarrow> Point \<Rightarrow> Connections \<Rightarrow> error + Connections" where
  "connect p q connections =
     (case addConnection q (map_of connections (id_pt p)) of
        Inl e \<Rightarrow> Inl e
      | Inr rp \<Rightarrow>
          let connections = AList.update (id_pt p) rp connections in
          (case addConnection p (map_of connections (id_pt q)) of
             Inl e \<Rightarrow> Inl e
           | Inr rq \<Rightarrow> Inr (AList.update (id_pt q) rq connections)))"

definition disconnect :: "Point \<Rightarrow> Point \<Rightarrow> Connections \<Rightarrow> error + Connections" where
  "disconnect p q connections =
     (case removeConnection q (map_of connections (id_pt p)) of
        Inl e \<Rightarrow> Inl e
      | Inr rp \<Rightarrow>
          let connections = AList.update (id_pt p) rp connections in
          (case removeConnection p (map_of connections (id_pt q)) of
             Inl e \<Rightarrow> Inl e
           | Inr rq \<Rightarrow> Inr (AList.update (id_pt q) rq connections)))"

text \<open>\<open>Object.assign({}, c, d)\<close> assigns the entries of \<open>c\<close>, then those of \<open>d\<close>, to a new
  object.\<close>

definition mergeConnections :: "Connections \<Rightarrow> Connections \<Rightarrow> Connections" where
  "mergeConnections c d = foldl (\<lambda>acc (k, r). AList.update k r acc) [] (c @ d)"


section \<open>The triangulation\<close>

subsection \<open>The lower tangent\<close>

text \<open>
  The first \<open>while\<close> loop of \<open>delaunay\<close>, on \<open>left\<close>, \<open>right\<close>, \<open>nextLeft\<close> and
  \<open>nextRight\<close>.  Nothing in the code bounds its iterations: a run that does not end is
  \<open>None\<close>.
\<close>

partial_function (option) tangent_loop ::
  "Connections \<Rightarrow> Point \<Rightarrow> Point \<Rightarrow> Point \<Rightarrow> Point \<Rightarrow> (error + Point \<times> Point) option" where
  "tangent_loop connections left right nextLeft nextRight =
     (if belowLine nextLeft (left, right) \<or> belowLine nextRight (left, right) then
        (if belowLine nextLeft (left, right) then
           (case nextConnection (PointRef left) (map_of connections (id_pt nextLeft)) (- 1) of
              Inl e \<Rightarrow> Some (Inl e)
            | Inr nl \<Rightarrow> tangent_loop connections nextLeft right nl nextRight)
         else
           (case nextConnection (PointRef right) (map_of connections (id_pt nextRight)) 1 of
              Inl e \<Rightarrow> Some (Inl e)
            | Inr nr \<Rightarrow> tangent_loop connections left nextRight nextLeft nr))
      else Some (Inr (left, right)))"

subsection \<open>The candidates\<close>

text \<open>
  The two inner \<open>while\<close> loops of the merge are one loop on the ring of \<open>owner\<close>, which is
  \<open>left\<close> with direction \<open>1\<close> for the left candidate and \<open>right\<close> with direction \<open>-1\<close>
  for the right one: while the next candidate is in the circle of \<open>left\<close>, \<open>right\<close> and the
  candidate, the candidate is disconnected from \<open>owner\<close> and the next one takes its place.
\<close>

partial_function (option) prune ::
  "Point \<Rightarrow> real \<Rightarrow> Point \<Rightarrow> Point \<Rightarrow> Connections \<Rightarrow> Point \<Rightarrow> Point option
     \<Rightarrow> (error + Connections \<times> Point) option" where
  "prune owner direction left right connections candidate nextCandidate =
     (case nextCandidate of
        None \<Rightarrow> Some (Inr (connections, candidate))
      | Some n \<Rightarrow>
          if inCircle n (left, right, candidate) then
            (case disconnect owner candidate connections of
               Inl e \<Rightarrow> Some (Inl e)
             | Inr connections' \<Rightarrow>
                 (case nextConnectionAbove (PointRef n) (map_of connections' (id_pt owner))
                         direction (left, right) of
                    Inl e \<Rightarrow> Some (Inl e)
                  | Inr n' \<Rightarrow> prune owner direction left right connections' n n'))
          else Some (Inr (connections, candidate)))"

text \<open>\<open>candidate owner direction other\<close> is the search for \<open>leftCandidate\<close>
  (\<open>candidate left 1 right\<close>) or \<open>rightCandidate\<close> (\<open>candidate right (-1) left\<close>) with its
  loop.\<close>

definition candidate ::
  "Point \<Rightarrow> real \<Rightarrow> Point \<Rightarrow> Point \<Rightarrow> Point \<Rightarrow> Connections
     \<Rightarrow> (error + Connections \<times> Point option) option" where
  "candidate owner direction other left right connections =
     (case nextConnectionAbove (PointRef other) (map_of connections (id_pt owner))
             direction (left, right) of
        Inl e \<Rightarrow> Some (Inl e)
      | Inr None \<Rightarrow> Some (Inr (connections, None))
      | Inr (Some cand) \<Rightarrow>
          (case nextConnectionAbove (PointRef cand) (map_of connections (id_pt owner))
                  direction (left, right) of
             Inl e \<Rightarrow> Some (Inl e)
           | Inr n \<Rightarrow>
               (case prune owner direction left right connections cand n of
                  None \<Rightarrow> None
                | Some (Inl e) \<Rightarrow> Some (Inl e)
                | Some (Inr (connections', cand')) \<Rightarrow> Some (Inr (connections', Some cand')))))"

subsection \<open>The merge\<close>

text \<open>The loop \<open>while (left && right)\<close>: both are point objects, so it ends at its
  \<open>break\<close> only.\<close>

partial_function (option) merge_loop ::
  "Connections \<Rightarrow> Point \<Rightarrow> Point \<Rightarrow> (error + Connections) option" where
  "merge_loop connections left right =
     (case candidate left 1 right left right connections of
        None \<Rightarrow> None
      | Some (Inl e) \<Rightarrow> Some (Inl e)
      | Some (Inr (connections1, leftCandidate)) \<Rightarrow>
          (case candidate right (- 1) left left right connections1 of
             None \<Rightarrow> None
           | Some (Inl e) \<Rightarrow> Some (Inl e)
           | Some (Inr (connections2, rightCandidate)) \<Rightarrow>
               if leftCandidate = None \<and> rightCandidate = None then Some (Inr connections2)
               else
                 let (leftCandidate, rightCandidate) =
                       (case (leftCandidate, rightCandidate) of
                          (Some lc, Some rc) \<Rightarrow>
                            if inCircle rc (lc, left, right) then (None, Some rc)
                            else (Some lc, None)
                        | both \<Rightarrow> both);
                     left' = (case leftCandidate of Some lc \<Rightarrow> lc | None \<Rightarrow> left);
                     right' = (case rightCandidate of Some rc \<Rightarrow> rc | None \<Rightarrow> right)
                 in (case connect left' right' connections2 of
                       Inl e \<Rightarrow> Some (Inl e)
                     | Inr connections3 \<Rightarrow> merge_loop connections3 left' right')))"

text \<open>Everything \<open>delaunay\<close> does after its two recursive calls.  On an empty half,
  \<open>left\<close> or \<open>right\<close> is \<open>undefined\<close> and \<open>id\<close> raises a TypeError.\<close>

definition merge_halves ::
  "Point list \<Rightarrow> Point list \<Rightarrow> Connections \<Rightarrow> Connections \<Rightarrow> (error + Connections) option" where
  "merge_halves leftPts rightPts leftConnections rightConnections =
     (let connections = mergeConnections leftConnections rightConnections in
      if leftPts = [] \<or> rightPts = [] then Some (Inl TypeError)
      else
        let left = leftPts ! (length leftPts - 1); right = rightPts ! 0 in
        (case nextConnection (Angle 0) (map_of connections (id_pt left)) (- 1) of
           Inl e \<Rightarrow> Some (Inl e)
         | Inr nextLeft \<Rightarrow>
             (case nextConnection (Angle (- pi)) (map_of connections (id_pt right)) 1 of
                Inl e \<Rightarrow> Some (Inl e)
              | Inr nextRight \<Rightarrow>
                  (case tangent_loop connections left right nextLeft nextRight of
                     None \<Rightarrow> None
                   | Some (Inl e) \<Rightarrow> Some (Inl e)
                   | Some (Inr (left, right)) \<Rightarrow>
                       (case connect left right connections of
                          Inl e \<Rightarrow> Some (Inl e)
                        | Inr connections \<Rightarrow> merge_loop connections left right)))))"

subsection \<open>\<open>delaunay\<close>\<close>

text \<open>
  \<open>delaunay\<close> sorts the array it is given in place, so the model returns the array as the
  call leaves it, with the result: the adjacency map, or the error raised.  \<open>None\<close> is a call
  that does not return.  The halves are new arrays (\<open>slice\<close>); each recursive call sorts its
  own, and \<open>left\<close> and \<open>right\<close> are read from the halves after the calls.
\<close>

function delaunay :: "Point list \<Rightarrow> (Point list \<times> (error + Connections)) option" where
  "delaunay pts0 =
     (if length pts0 < 2 then Some (pts0, Inl InsufficientPoints)
      else
        let pts = sort_key px pts0 in
        if length pts = 2 then
          (let p = pts ! 0; q = pts ! 1
           in Some (pts, connect p q (emptyConnections pts)))
        else if length pts = 3 then
          (let p = pts ! 0; q = pts ! 1; r = pts ! 2
           in Some (pts,
                (case connect p q (emptyConnections pts) of
                   Inl e \<Rightarrow> Inl e
                 | Inr connections \<Rightarrow>
                     (case connect q r connections of
                        Inl e \<Rightarrow> Inl e
                      | Inr connections \<Rightarrow> connect r p connections))))
        else
          let mid = length pts div 2 in
          (case delaunay (take mid pts) of
             None \<Rightarrow> None
           | Some (leftPts, Inl e) \<Rightarrow> Some (pts, Inl e)
           | Some (leftPts, Inr leftConnections) \<Rightarrow>
               (case delaunay (drop mid pts) of
                  None \<Rightarrow> None
                | Some (rightPts, Inl e) \<Rightarrow> Some (pts, Inl e)
                | Some (rightPts, Inr rightConnections) \<Rightarrow>
                    (case merge_halves leftPts rightPts leftConnections rightConnections of
                       None \<Rightarrow> None
                     | Some result \<Rightarrow> Some (pts, result)))))"
  by pat_completeness auto
termination
  by (relation "measure length") auto

declare delaunay.simps [simp del]


section \<open>The dual\<close>

definition rightTriangle ::
  "Connections \<Rightarrow> Point \<Rightarrow> Point \<Rightarrow> error + (Point \<times> Point \<times> Point) option" where
  "rightTriangle connections p q =
     (case nextConnection (PointRef p) (map_of connections (id_pt q)) 1 of
        Inl e \<Rightarrow> Inl e
      | Inr r \<Rightarrow>
          (case nextConnection (PointRef q) (map_of connections (id_pt p)) (- 1) of
             Inl e \<Rightarrow> Inl e
           | Inr r' \<Rightarrow> if r \<noteq> r' then Inr None else Inr (Some (q, p, r))))"

text \<open>\<open>Object.values(connections)[0]\<close> is the ring of the first key; on an empty map it is
  \<open>undefined\<close>, and on a ring with no link so is \<open>ring.links[0]\<close>: a TypeError each time.
  The \<open>Error\<close> thrown when neither orientation gives a triangle is the spec's
  MalformedTriangulation.\<close>

definition randomTriangle :: "Connections \<Rightarrow> error + Point \<times> Point \<times> Point" where
  "randomTriangle connections =
     (case connections of
        [] \<Rightarrow> Inl TypeError
      | (k, ring) # rest \<Rightarrow>
          let p = center ring in
          (case links ring of
             [] \<Rightarrow> Inl TypeError
           | l # ls \<Rightarrow>
               let q = point l in
               (case rightTriangle connections p q of
                  Inl e \<Rightarrow> Inl e
                | Inr (Some T) \<Rightarrow> Inr T
                | Inr None \<Rightarrow>
                    (case rightTriangle connections q p of
                       Inl e \<Rightarrow> Inl e
                     | Inr None \<Rightarrow> Inl MalformedTriangulation
                     | Inr (Some T) \<Rightarrow> Inr T))))"

text \<open>
  \<open>_dual\<close> recurses into the neighbouring triangles, and stops at a circumcenter whose key
  is already in \<open>faces\<close>.  The model counts the depth of the recursion down from \<open>fuel\<close>
  (\<open>None\<close>: not enough), and carries the number of the next point object with \<open>faces\<close>,
  since every \<open>centerOf\<close> makes a new one.  The three \<open>rightTriangle\<close> calls are made
  before the loop over the triangles found.
\<close>

fun dual_rec ::
  "nat \<Rightarrow> Connections \<Rightarrow> Point \<times> Point \<times> Point \<Rightarrow> Connections \<times> nat
     \<Rightarrow> (error + Connections \<times> nat) option" where
  "dual_rec 0 connections T fs = None"
| "dual_rec (Suc fuel) connections (a, b, c) (faces, fresh) =
     (let center = centerOf a b c fresh; fresh = fresh + 1 in
      if map_of faces (id_pt center) \<noteq> None then Some (Inr (faces, fresh))
      else
        let faces = addPoint center faces in
        (case rightTriangle connections a b of
           Inl e \<Rightarrow> Some (Inl e)
         | Inr T1 \<Rightarrow>
        (case rightTriangle connections b c of
           Inl e \<Rightarrow> Some (Inl e)
         | Inr T2 \<Rightarrow>
        (case rightTriangle connections c a of
           Inl e \<Rightarrow> Some (Inl e)
         | Inr T3 \<Rightarrow>
             let neighbors = List.map_filter (\<lambda>T. T) [T1, T2, T3] in
             foldl (\<lambda>acc T.
                      case acc of
                        Some (Inr (faces, fresh)) \<Rightarrow>
                          (case T of (t0, t1, t2) \<Rightarrow>
                             let c = centerOf t0 t1 t2 fresh in
                             (case dual_rec fuel connections T (faces, fresh + 1) of
                                None \<Rightarrow> None
                              | Some (Inl e) \<Rightarrow> Some (Inl e)
                              | Some (Inr (faces, fresh)) \<Rightarrow>
                                  (case connect center c faces of
                                     Inl e \<Rightarrow> Some (Inl e)
                                   | Inr faces \<Rightarrow> Some (Inr (faces, fresh)))))
                      | other \<Rightarrow> other)
               (Some (Inr (faces, fresh))) neighbors))))"

text \<open>The first new point object of \<open>dual\<close> gets a number above those of the points of
  the map.\<close>

definition first_fresh :: "Connections \<Rightarrow> nat" where
  "first_fresh connections =
     Suc (foldl max 0
            (concat (map (\<lambda>(k, r). obj (center r) # map (\<lambda>l. obj (point l)) (links r))
                         connections)))"

definition dual :: "nat \<Rightarrow> Connections \<Rightarrow> (error + Connections) option" where
  "dual fuel connections =
     (case randomTriangle connections of
        Inl e \<Rightarrow> Some (Inl e)
      | Inr T \<Rightarrow>
          (case dual_rec fuel connections T ([], first_fresh connections) of
             None \<Rightarrow> None
           | Some (Inl e) \<Rightarrow> Some (Inl e)
           | Some (Inr (faces, fresh)) \<Rightarrow> Some (Inr faces)))"

section \<open>Auxiliary definitions for the properties\<close>

text \<open>The three-row determinant, written out.\<close>

definition det3 :: "real \<Rightarrow> real \<Rightarrow> real \<Rightarrow> real \<Rightarrow> real \<Rightarrow> real \<Rightarrow> real \<Rightarrow> real \<Rightarrow> real \<Rightarrow> real"
  where "det3 a b c d e f g h i = a * (e * i - f * h) - b * (d * i - f * g) + c * (d * h - e * g)"







text \<open>
  The adjacency map as a graph: \<open>ring_targets c k\<close> are the targets of the links of the
  ring of key \<open>k\<close>, and \<open>symmetric\<close> is the invariant of the spec, a link from the ring
  of \<open>q\<close> back to the key of every ring that holds a link to \<open>q\<close>.  \<open>with_link\<close> and
  \<open>without_link\<close> are the rings that \<open>addConnection\<close> and \<open>removeConnection\<close> return.
\<close>

definition ring_targets :: "Connections \<Rightarrow> key \<Rightarrow> Point set" where
  "ring_targets c k = (case map_of c k of None \<Rightarrow> {} | Some r \<Rightarrow> point ` set (links r))"

definition all_targets :: "Connections \<Rightarrow> Point set" where
  "all_targets c = (\<Union>k. ring_targets c k)"

definition symmetric :: "Connections \<Rightarrow> bool" where
  "symmetric c =
     (\<forall>k r. map_of c k = Some r \<longrightarrow>
        (\<forall>l\<in>set (links r). \<exists>r'. map_of c (id_pt (point l)) = Some r'
            \<and> (\<exists>l'\<in>set (links r'). id_pt (point l') = k)))"

definition with_link :: "Point \<Rightarrow> Ring \<Rightarrow> Ring" where
  "with_link p r =
     r\<lparr>links := sort_key angle
           (links r @ [\<lparr>point = p, angle = atan2 (py p - py (center r)) (px p - px (center r))\<rparr>])\<rparr>"


text \<open>
  The well-formedness of a ring: its links are sorted by angle, and the angle of each is the
  \<open>atan2\<close> of the offset of its target from the centre, in \<open>(-\<pi>, \<pi>]\<close>.  A ring is
  \<open>ring_unique\<close> when no two of its links go to the same coordinates.  \<open>mesh_inv P\<close>
  collects what holds of every map built over the points \<open>P\<close>.
\<close>

definition ring_ok :: "Ring \<Rightarrow> bool" where
  "ring_ok r =
     (sorted (map angle (links r))
      \<and> (\<forall>l\<in>set (links r).
            angle l = atan2 (py (point l) - py (center r)) (px (point l) - px (center r))
            \<and> - pi < angle l \<and> angle l \<le> pi))"

definition rings_ok :: "Connections \<Rightarrow> bool" where
  "rings_ok c = (\<forall>k r. map_of c k = Some r \<longrightarrow> ring_ok r)"



definition mesh_inv :: "Point set \<Rightarrow> Connections \<Rightarrow> bool" where
  "mesh_inv P c =
     (distinct (map fst c) \<and> dom (map_of c) \<subseteq> id_pt ` P \<and> all_targets c \<subseteq> P
      \<and> symmetric c \<and> rings_ok c)"

section \<open>The determinants agree\<close>

lemma S_3:
  "S 3 = Some [([3, 2, 1], - 1), ([2, 3, 1], 1), ([2, 1, 3], - 1),
               ([3, 1, 2], 1), ([1, 3, 2], - 1), ([1, 2, 3], 1)]"
  by (simp add: numeral_3_eq_3 numeral_2_eq_2 upt_rec)






lemma det_3: "det [[a, b, c], [d, e, f], [g, h, i]] = Some (det3 a b c d e f g h i)"
  unfolding det_def det3_def by (simp add: S_3 upt_rec algebra_simps)














section \<open>The predicates\<close>









section \<open>Looking up a ring\<close>

lemma scan_stop:
  "i < length ls \<Longrightarrow> (angle (ls ! i) = a \<and> direction \<le> 0) \<or> a < angle (ls ! i) \<Longrightarrow>
     scan a direction ls i = i"
  by (subst scan.simps) auto

lemma scan_step:
  "i < length ls \<Longrightarrow> \<not> (angle (ls ! i) = a \<and> direction \<le> 0) \<Longrightarrow> \<not> a < angle (ls ! i) \<Longrightarrow>
     scan a direction ls i = scan a direction ls (Suc i)"
  by (subst scan.simps) auto

lemma scan_end: "\<not> i < length ls \<Longrightarrow> scan a direction ls i = i"
  by (subst scan.simps) auto

lemma scan_takeWhile_from:
  "i \<le> length ls \<Longrightarrow>
     scan a d ls i =
       i + length (takeWhile (\<lambda>l. if d \<le> 0 then angle l < a else angle l \<le> a) (drop i ls))"
proof (induction a d ls i rule: scan.induct)
  case (1 a d ls i)
  show ?case
  proof (cases "i < length ls")
    case False
    then show ?thesis
      by (simp add: scan_end)
  next
    case True
    then have dr: "drop i ls = ls ! i # drop (Suc i) ls"
      by (simp add: Cons_nth_drop_Suc)
    show ?thesis
    proof (cases "(angle (ls ! i) = a \<and> d \<le> 0) \<or> a < angle (ls ! i)")
      case True
      with \<open>i < length ls\<close> show ?thesis
        by (auto simp: scan_stop dr)
    next
      case False
      with \<open>i < length ls\<close> have "scan a d ls i = scan a d ls (Suc i)"
        by (simp add: scan_step)
      moreover have "scan a d ls (i + 1) =
          i + 1 + length (takeWhile (\<lambda>l. if d \<le> 0 then angle l < a else angle l \<le> a)
                            (drop (i + 1) ls))"
        using "1.IH" \<open>i < length ls\<close> False by auto
      ultimately show ?thesis
        using False by (auto simp: dr)
    qed
  qed
qed

lemma scan_takeWhile:
  "scan a d ls 0 = length (takeWhile (\<lambda>l. if d \<le> 0 then angle l < a else angle l \<le> a) ls)"
  using scan_takeWhile_from [of 0 ls a d] by simp

lemma scan_le_length: "scan a d ls 0 \<le> length ls"
  by (simp add: scan_takeWhile length_takeWhile_le)

lemma scan_before:
  "j < scan a d ls 0 \<Longrightarrow> (if d \<le> 0 then angle (ls ! j) < a else angle (ls ! j) \<le> a)"
  unfolding scan_takeWhile
  using nth_length_takeWhile takeWhile_nth
  by (metis (mono_tags, lifting) length_takeWhile_le nth_mem order_less_le_trans set_takeWhileD)

lemma scan_at:
  "scan a d ls 0 < length ls \<Longrightarrow>
     \<not> (if d \<le> 0 then angle (ls ! scan a d ls 0) < a else angle (ls ! scan a d ls 0) \<le> a)"
  unfolding scan_takeWhile by (rule nth_length_takeWhile)

text \<open>The result of the lookup, by the index the scan stops at.\<close>

lemma nextConnectionFromAngle_forward:
  assumes "0 < d" and "ls \<noteq> []" and "links r = ls"
  shows "nextConnectionFromAngle a (Some r) d =
           Inr (point (if scan a d ls 0 < length ls then ls ! scan a d ls 0 else ls ! 0))"
  using assms
  by (auto simp: nextConnectionFromAngle_def Let_def elem_at_def orelse_def)

lemma nextConnectionFromAngle_backward:
  assumes "d \<le> 0" and "ls \<noteq> []" and "links r = ls"
  shows "nextConnectionFromAngle a (Some r) d =
           Inr (point (if 0 < scan a d ls 0 then ls ! (scan a d ls 0 - 1)
                       else ls ! (length ls - 1)))"
proof -
  have "scan a d ls 0 \<le> length ls"
    by (rule scan_le_length)
  moreover have "nat (int (scan a d ls 0) - 1) = scan a d ls 0 - 1"
    by simp
  moreover have "nat (int (length ls) - 1) = length ls - 1"
    by simp
  ultimately show ?thesis
    using assms
    by (auto simp: nextConnectionFromAngle_def Let_def elem_at_def orelse_def)
qed

lemma nextConnectionFromAngle_empty:
  "links r = [] \<Longrightarrow> nextConnectionFromAngle a (Some r) d = Inl TypeError"
  by (simp add: nextConnectionFromAngle_def Let_def elem_at_def orelse_def scan_end)

lemma nextConnectionFromAngle_in_ring:
  assumes "links r \<noteq> []"
  shows "\<exists>l\<in>set (links r). nextConnectionFromAngle a (Some r) d = Inr (point l)"
proof (cases "0 < d")
  case True
  have "0 < length (links r)"
    using assms by simp
  then have "links r ! 0 \<in> set (links r)"
    and "scan a d (links r) 0 < length (links r) \<Longrightarrow>
           links r ! scan a d (links r) 0 \<in> set (links r)"
    by (simp_all only: nth_mem)
  then show ?thesis
    by (auto simp: nextConnectionFromAngle_forward [OF True assms refl])
next
  case False
  then have d: "d \<le> 0"
    by simp
  have "scan a d (links r) 0 - 1 < length (links r)" "length (links r) - 1 < length (links r)"
    using scan_le_length [of a d "links r"] assms
    by (cases "links r"; simp)+
  then have "links r ! (scan a d (links r) 0 - 1) \<in> set (links r)"
    and "links r ! (length (links r) - 1) \<in> set (links r)"
    by (simp_all only: nth_mem)
  then show ?thesis
    by (auto simp: nextConnectionFromAngle_backward [OF d assms refl])
qed

lemma nextConnection_unfold:
  "nextConnection (Angle a) ring d = nextConnectionFromAngle a ring d"
  "nextConnection (PointRef q) (Some r) d =
     nextConnectionFromAngle (atan2 (py q - py (center r)) (px q - px (center r))) (Some r) d"
  "nextConnection p None d = Inl TypeError"
  by (auto simp: nextConnection_def minus_pt_def Let_def nextConnectionFromAngle_def
        split: Reference.splits)

lemma nextConnection_in_ring:
  assumes "links r \<noteq> []"
  shows "\<exists>l\<in>set (links r). nextConnection p (Some r) d = Inr (point l)"
  using nextConnectionFromAngle_in_ring [OF assms]
  by (cases p) (simp_all add: nextConnection_unfold)

lemma nextConnection_empty: "links r = [] \<Longrightarrow> nextConnection p (Some r) d = Inl TypeError"
  by (cases p) (simp_all add: nextConnection_unfold nextConnectionFromAngle_empty)


text \<open>In a ring sorted by angle.\<close>

lemma forward_smallest_above:
  assumes "sorted (map angle ls)" and "0 < d" and "k = scan a d ls 0" and "k < length ls"
  shows "a < angle (ls ! k) \<and> (\<forall>l'\<in>set ls. a < angle l' \<longrightarrow> angle (ls ! k) \<le> angle l')"
proof
  show "a < angle (ls ! k)"
    using scan_at [of a d ls] assms by auto
  show "\<forall>l'\<in>set ls. a < angle l' \<longrightarrow> angle (ls ! k) \<le> angle l'"
  proof (intro ballI impI)
    fix l' assume "l' \<in> set ls" and above: "a < angle l'"
    then obtain j where j: "j < length ls" "ls ! j = l'"
      by (auto simp: in_set_conv_nth)
    have "\<not> j < k"
      using scan_before [of j a d ls] assms above j by auto
    then have "k \<le> j"
      by simp
    then have "map angle ls ! k \<le> map angle ls ! j"
      using assms(1) j(1) by (simp add: sorted_iff_nth_mono del: nth_map)
    then show "angle (ls ! k) \<le> angle l'"
      using j assms(4) by simp
  qed
qed

lemma forward_none_above:
  assumes "0 < d" and "\<not> (\<exists>l\<in>set ls. a < angle l)"
  shows "scan a d ls 0 = length ls"
proof (rule ccontr)
  assume "scan a d ls 0 \<noteq> length ls"
  then have "scan a d ls 0 < length ls"
    using scan_le_length [of a d ls] by simp
  then show False
    using scan_at [of a d ls] assms by (auto simp: not_le)
qed

lemma backward_largest_below:
  assumes "sorted (map angle ls)" and "d \<le> 0" and "k = scan a d ls 0" and "0 < k"
  shows "angle (ls ! (k - 1)) < a \<and> (\<forall>l'\<in>set ls. angle l' < a \<longrightarrow> angle l' \<le> angle (ls ! (k - 1)))"
proof
  have k: "k \<le> length ls"
    using assms(3) scan_le_length by simp
  show "angle (ls ! (k - 1)) < a"
    using scan_before [of "k - 1" a d ls] assms by auto
  show "\<forall>l'\<in>set ls. angle l' < a \<longrightarrow> angle l' \<le> angle (ls ! (k - 1))"
  proof (intro ballI impI)
    fix l' assume "l' \<in> set ls" and below: "angle l' < a"
    then obtain j where j: "j < length ls" "ls ! j = l'"
      by (auto simp: in_set_conv_nth)
    have "j < k"
    proof (rule ccontr)
      assume "\<not> j < k"
      then have "k \<le> j" "k < length ls"
        using j by auto
      then have "map angle ls ! k \<le> map angle ls ! j"
        using assms(1) j(1) by (simp add: sorted_iff_nth_mono del: nth_map)
      moreover have "a \<le> angle (ls ! k)"
        using scan_at [of a d ls] assms \<open>k < length ls\<close> by (auto simp: not_less)
      ultimately show False
        using below j \<open>k < length ls\<close> by simp
    qed
    then have "j \<le> k - 1" "k - 1 < length ls"
      using k assms(4) by auto
    then have "map angle ls ! j \<le> map angle ls ! (k - 1)"
      using assms(1) by (simp add: sorted_iff_nth_mono del: nth_map)
    then show "angle l' \<le> angle (ls ! (k - 1))"
      using j \<open>k - 1 < length ls\<close> by simp
  qed
qed

lemma backward_none_below:
  assumes "d \<le> 0" and "\<not> (\<exists>l\<in>set ls. angle l < a)"
  shows "scan a d ls 0 = 0"
proof (rule ccontr)
  assume "scan a d ls 0 \<noteq> 0"
  then have "0 < scan a d ls 0"
    by simp
  then have "angle (ls ! 0) < a" "0 < length ls"
    using scan_before [of 0 a d ls] assms(1) scan_le_length [of a d ls] by auto
  then show False
    using assms(2) by (metis nth_mem)
qed

lemma nextConnection_error: "nextConnection p ring d = Inl e \<Longrightarrow> e = TypeError"
proof (cases ring)
  case None
  assume "nextConnection p ring d = Inl e"
  with None show ?thesis
    by (simp add: nextConnection_unfold)
next
  case (Some r)
  assume e: "nextConnection p ring d = Inl e"
  show ?thesis
  proof (cases "links r = []")
    case True
    with e Some show ?thesis
      by (simp add: nextConnection_empty)
  next
    case False
    from nextConnection_in_ring [OF False, of p d] e Some show ?thesis
      by auto
  qed
qed

text \<open>
  Claim C3.  In a ring with a link, its links sorted by angle, a lookup from a number is a
  lookup from that angle and a lookup from a point is a lookup from the \<open>atan2\<close> of its
  offset from the centre.  The scan passes the links of angle below the reference, and those
  of angle equal to it when the direction is positive only.  With a positive direction the
  result is the target of a link of the least angle strictly above the reference, and the
  first link when there is none; otherwise it is the target of a link of the greatest angle
  strictly below the reference, and the last link when there is none.
\<close>

theorem nextConnection_semantics:
  assumes "links r \<noteq> []" and "sorted (map angle (links r))"
  shows "nextConnection (Angle a) (Some r) d = nextConnectionFromAngle a (Some r) d
    \<and> nextConnection (PointRef q) (Some r) d =
        nextConnectionFromAngle (atan2 (py q - py (center r)) (px q - px (center r))) (Some r) d
    \<and> scan a d (links r) 0 =
        length (takeWhile (\<lambda>l. if d \<le> 0 then angle l < a else angle l \<le> a) (links r))
    \<and> (0 < d \<and> (\<exists>l\<in>set (links r). a < angle l) \<longrightarrow>
         (\<exists>l\<in>set (links r). nextConnectionFromAngle a (Some r) d = Inr (point l)
             \<and> a < angle l \<and> (\<forall>l'\<in>set (links r). a < angle l' \<longrightarrow> angle l \<le> angle l')))
    \<and> (0 < d \<and> \<not> (\<exists>l\<in>set (links r). a < angle l) \<longrightarrow>
         nextConnectionFromAngle a (Some r) d = Inr (point (hd (links r))))
    \<and> (d \<le> 0 \<and> (\<exists>l\<in>set (links r). angle l < a) \<longrightarrow>
         (\<exists>l\<in>set (links r). nextConnectionFromAngle a (Some r) d = Inr (point l)
             \<and> angle l < a \<and> (\<forall>l'\<in>set (links r). angle l' < a \<longrightarrow> angle l' \<le> angle l)))
    \<and> (d \<le> 0 \<and> \<not> (\<exists>l\<in>set (links r). angle l < a) \<longrightarrow>
         nextConnectionFromAngle a (Some r) d = Inr (point (last (links r))))"
proof (intro conjI impI)
  let ?ls = "links r" and ?k = "scan a d (links r) 0"
  show "nextConnection (Angle a) (Some r) d = nextConnectionFromAngle a (Some r) d"
    by (rule nextConnection_unfold)
  show "nextConnection (PointRef q) (Some r) d =
      nextConnectionFromAngle (atan2 (py q - py (center r)) (px q - px (center r))) (Some r) d"
    by (rule nextConnection_unfold)
  show "?k = length (takeWhile (\<lambda>l. if d \<le> 0 then angle l < a else angle l \<le> a) ?ls)"
    by (rule scan_takeWhile)
  {
    assume h: "0 < d \<and> (\<exists>l\<in>set ?ls. a < angle l)"
    have "?k < length ?ls"
    proof (rule ccontr)
      assume "\<not> ?k < length ?ls"
      then have "\<forall>j<length ?ls. angle (?ls ! j) \<le> a"
        using scan_before [of _ a d ?ls] h by auto
      moreover obtain i where "i < length ?ls" "a < angle (?ls ! i)"
        using h by (auto simp: in_set_conv_nth)
      ultimately show False
        by (auto simp: not_less [symmetric])
    qed
    moreover from this have "?ls ! ?k \<in> set ?ls"
      by (rule nth_mem)
    ultimately show "\<exists>l\<in>set ?ls. nextConnectionFromAngle a (Some r) d = Inr (point l)
        \<and> a < angle l \<and> (\<forall>l'\<in>set ?ls. a < angle l' \<longrightarrow> angle l \<le> angle l')"
      using forward_smallest_above [OF assms(2) _ refl, of d a] h
        nextConnectionFromAngle_forward [OF _ assms(1) refl, of d a]
      by (intro bexI [of _ "?ls ! ?k"]) auto
  }
  {
    assume h: "0 < d \<and> \<not> (\<exists>l\<in>set ?ls. a < angle l)"
    then have "?k = length ?ls"
      using forward_none_above by blast
    then show "nextConnectionFromAngle a (Some r) d = Inr (point (hd ?ls))"
      using nextConnectionFromAngle_forward [OF _ assms(1) refl, of d a] h assms(1)
      by (simp add: hd_conv_nth)
  }
  {
    assume h: "d \<le> 0 \<and> (\<exists>l\<in>set ?ls. angle l < a)"
    have "0 < ?k"
    proof (rule ccontr)
      assume "\<not> 0 < ?k"
      then have k: "?k = 0"
        by simp
      then have "a \<le> angle (?ls ! 0)"
        using scan_at [of a d ?ls] h assms(1) by (auto simp: not_less)
      moreover have "\<forall>j<length ?ls. map angle ?ls ! 0 \<le> map angle ?ls ! j"
        using assms(2) by (simp add: sorted_iff_nth_mono del: nth_map)
      ultimately have "\<forall>j<length ?ls. a \<le> angle (?ls ! j)"
        using assms(1) by fastforce
      then show False
        using h by (auto simp: in_set_conv_nth not_less [symmetric])
    qed
    moreover from this have "?ls ! (?k - 1) \<in> set ?ls"
      using scan_le_length [of a d ?ls] by (intro nth_mem) simp
    ultimately show "\<exists>l\<in>set ?ls. nextConnectionFromAngle a (Some r) d = Inr (point l)
        \<and> angle l < a \<and> (\<forall>l'\<in>set ?ls. angle l' < a \<longrightarrow> angle l' \<le> angle l)"
      using backward_largest_below [OF assms(2) _ refl, of d a] h
        nextConnectionFromAngle_backward [OF _ assms(1) refl, of d a]
      by (intro bexI [of _ "?ls ! (?k - 1)"]) auto
  }
  {
    assume h: "d \<le> 0 \<and> \<not> (\<exists>l\<in>set ?ls. angle l < a)"
    then have "?k = 0"
      using backward_none_below by blast
    then show "nextConnectionFromAngle a (Some r) d = Inr (point (last ?ls))"
      using nextConnectionFromAngle_backward [OF _ assms(1) refl, of d a] h assms(1)
      by (simp add: last_conv_nth)
  }
qed

lemma pi_facts: "\<not> pi \<le> 0" "\<not> pi < 0" "pi \<noteq> 0"
  using pi_gt_zero by (simp_all add: not_le)

theorem nextConnection_semantics_witness:
  "nextConnectionFromAngle 0
      (Some \<lparr>center = Point 0 0 10,
             links = [\<lparr>point = Point 1 0 11, angle = 0\<rparr>,
                      \<lparr>point = Point 0 1 12, angle = pi / 2\<rparr>]\<rparr>) 1 = Inr (Point 0 1 12)
   \<and> nextConnectionFromAngle 0
      (Some \<lparr>center = Point 0 0 10,
             links = [\<lparr>point = Point 1 0 11, angle = 0\<rparr>,
                      \<lparr>point = Point 0 1 12, angle = pi / 2\<rparr>]\<rparr>) (- 1) = Inr (Point 0 1 12)
   \<and> nextConnectionFromAngle (pi / 2)
      (Some \<lparr>center = Point 0 0 10,
             links = [\<lparr>point = Point 1 0 11, angle = 0\<rparr>,
                      \<lparr>point = Point 0 1 12, angle = pi / 2\<rparr>]\<rparr>) (- 1) = Inr (Point 1 0 11)
   \<and> nextConnectionFromAngle (pi / 2)
      (Some \<lparr>center = Point 0 0 10,
             links = [\<lparr>point = Point 1 0 11, angle = 0\<rparr>,
                      \<lparr>point = Point 0 1 12, angle = pi / 2\<rparr>]\<rparr>) 1 = Inr (Point 1 0 11)"
  using nextConnection_semantics
          [of "\<lparr>center = Point 0 0 10,
                 links = [\<lparr>point = Point 1 0 11, angle = 0\<rparr>,
                          \<lparr>point = Point 0 1 12, angle = pi / 2\<rparr>]\<rparr>" 0 1]
        nextConnection_semantics
          [of "\<lparr>center = Point 0 0 10,
                 links = [\<lparr>point = Point 1 0 11, angle = 0\<rparr>,
                          \<lparr>point = Point 0 1 12, angle = pi / 2\<rparr>]\<rparr>" 0 "- 1"]
        nextConnection_semantics
          [of "\<lparr>center = Point 0 0 10,
                 links = [\<lparr>point = Point 1 0 11, angle = 0\<rparr>,
                          \<lparr>point = Point 0 1 12, angle = pi / 2\<rparr>]\<rparr>" "pi / 2" "- 1"]
        nextConnection_semantics
          [of "\<lparr>center = Point 0 0 10,
                 links = [\<lparr>point = Point 1 0 11, angle = 0\<rparr>,
                          \<lparr>point = Point 0 1 12, angle = pi / 2\<rparr>]\<rparr>" "pi / 2" 1]
  by (simp add: pi_facts)

text \<open>
  Claim C10.  On a ring with a link, \<open>nextConnection\<close> and \<open>nextConnectionFromAngle\<close>
  return the target of a link of the ring, for every reference and direction.  On a ring
  with no link they raise a TypeError, and so do their callers: \<open>randomTriangle\<close> when the
  first ring has no link, the merge when the ring of its first \<open>left\<close> or of its first
  \<open>right\<close> has none.
\<close>

theorem nextConnection_needs_a_link:
  "(links r \<noteq> [] \<longrightarrow>
      (\<exists>l\<in>set (links r). nextConnection p (Some r) d = Inr (point l))
      \<and> (\<exists>l\<in>set (links r). nextConnectionFromAngle a (Some r) d = Inr (point l)))
   \<and> (links r = [] \<longrightarrow>
        nextConnection p (Some r) d = Inl TypeError
        \<and> nextConnectionFromAngle a (Some r) d = Inl TypeError
        \<and> randomTriangle ((k, r) # rest) = Inl TypeError)
   \<and> (links r = [] \<and> leftPts \<noteq> [] \<and> rightPts \<noteq> []
        \<and> (map_of (mergeConnections lc rc) (id_pt (last leftPts)) = Some r
            \<or> map_of (mergeConnections lc rc) (id_pt (hd rightPts)) = Some r) \<longrightarrow>
        merge_halves leftPts rightPts lc rc = Some (Inl TypeError))"
proof (intro conjI impI)
  assume "links r \<noteq> []"
  then show "\<exists>l\<in>set (links r). nextConnection p (Some r) d = Inr (point l)"
    and "\<exists>l\<in>set (links r). nextConnectionFromAngle a (Some r) d = Inr (point l)"
    by (rule nextConnection_in_ring, rule nextConnectionFromAngle_in_ring)
next
  assume "links r = []"
  then show "nextConnection p (Some r) d = Inl TypeError"
    and "nextConnectionFromAngle a (Some r) d = Inl TypeError"
    and "randomTriangle ((k, r) # rest) = Inl TypeError"
    by (simp_all add: nextConnection_empty nextConnectionFromAngle_empty randomTriangle_def)
next
  assume h: "links r = [] \<and> leftPts \<noteq> [] \<and> rightPts \<noteq> []
    \<and> (map_of (mergeConnections lc rc) (id_pt (last leftPts)) = Some r
        \<or> map_of (mergeConnections lc rc) (id_pt (hd rightPts)) = Some r)"
  let ?c = "mergeConnections lc rc"
  have l: "leftPts ! (length leftPts - Suc 0) = last leftPts" and r: "rightPts ! 0 = hd rightPts"
    using h by (simp_all add: last_conv_nth hd_conv_nth)
  show "merge_halves leftPts rightPts lc rc = Some (Inl TypeError)"
  proof (cases "nextConnection (Angle 0) (map_of ?c (id_pt (last leftPts))) (- 1)")
    case (Inl e)
    then have "e = TypeError"
      by (rule nextConnection_error)
    with Inl h show ?thesis
      by (simp add: merge_halves_def l r Let_def)
  next
    case (Inr nl)
    then have "map_of ?c (id_pt (last leftPts)) \<noteq> Some r"
      using h by (auto simp: nextConnection_empty)
    then have "nextConnection (Angle (- pi)) (map_of ?c (id_pt (hd rightPts))) 1 = Inl TypeError"
      using h by (auto simp: nextConnection_empty)
    with Inr h show ?thesis
      by (simp add: merge_halves_def l r Let_def)
  qed
qed

theorem nextConnection_needs_a_link_witness:
  "nextConnection (PointRef (Point 0 1 12))
      (Some \<lparr>center = Point 0 0 10, links = [\<lparr>point = Point 1 0 11, angle = 0\<rparr>]\<rparr>) 1
     = Inr (Point 1 0 11)
   \<and> nextConnection (PointRef (Point 0 1 12)) (Some \<lparr>center = Point 0 0 10, links = []\<rparr>) 1
     = Inl TypeError
   \<and> randomTriangle [((0, 0), \<lparr>center = Point 0 0 10, links = []\<rparr>)] = Inl TypeError
   \<and> merge_halves [Point 0 0 10] [Point 1 0 11]
        [((0, 0), \<lparr>center = Point 0 0 10, links = []\<rparr>)]
        [((1, 0), \<lparr>center = Point 1 0 11, links = []\<rparr>)] = Some (Inl TypeError)"
  using nextConnection_needs_a_link
          [of "\<lparr>center = Point 0 0 10, links = [\<lparr>point = Point 1 0 11, angle = 0\<rparr>]\<rparr>"
              "PointRef (Point 0 1 12)" 1]
        nextConnection_needs_a_link
          [of "\<lparr>center = Point 0 0 10, links = []\<rparr>" "PointRef (Point 0 1 12)" 1 0 "(0, 0)" "[]"
              "[Point 0 0 10]" "[Point 1 0 11]"
              "[((0, 0), \<lparr>center = Point 0 0 10, links = []\<rparr>)]"
              "[((1, 0), \<lparr>center = Point 1 0 11, links = []\<rparr>)]"]
  by (simp add: mergeConnections_def id_pt_def)

section \<open>The concrete scenarios\<close>

lemma atan2_values:
  "atan2 0 1 = 0" "atan2 0 (- 1) = pi" "atan2 1 0 = pi / 2" "atan2 (- 1) 0 = - (pi / 2)"
  "atan2 1 (- 1) = 3 * pi / 4" "atan2 (- 1) 1 = - (pi / 4)" "atan2 0 0 = 0"
  by (simp_all add: atan2_def arctan_one arctan_minus)

lemmas lookup_defs =
  rightTriangle_def nextConnection_def nextConnectionFromAngle_def id_pt_def minus_pt_def
  Let_def scan_stop scan_step scan_end elem_at_def orelse_def

lemmas build_defs =
  emptyConnections_def connect_def addConnection_def id_pt_def minus_pt_def Let_def

lemma delaunay_two_points:
  "delaunay [Point 0 0 10, Point 1 0 11] =
     Some ([Point 0 0 10, Point 1 0 11],
       Inr [((0, 0), \<lparr>center = Point 0 0 10, links = [\<lparr>point = Point 1 0 11, angle = 0\<rparr>]\<rparr>),
            ((1, 0), \<lparr>center = Point 1 0 11, links = [\<lparr>point = Point 0 0 10, angle = pi\<rparr>]\<rparr>)])"
  by (simp add: delaunay.simps build_defs atan2_values)

lemma delaunay_two_points_swapped:
  "delaunay [Point 1 0 11, Point 0 0 10] =
     Some ([Point 0 0 10, Point 1 0 11],
       Inr [((0, 0), \<lparr>center = Point 0 0 10, links = [\<lparr>point = Point 1 0 11, angle = 0\<rparr>]\<rparr>),
            ((1, 0), \<lparr>center = Point 1 0 11, links = [\<lparr>point = Point 0 0 10, angle = pi\<rparr>]\<rparr>)])"
  by (simp add: delaunay.simps build_defs atan2_values)

text \<open>
  Claim C7.  On the points \<open>(0,0)\<close> and \<open>(1,0)\<close>, in either order, \<open>delaunay\<close> returns the
  map of the one edge between them.  On that map \<open>rightTriangle\<close> finds no triangle for the
  edge in either orientation, and \<open>dual\<close> raises MalformedTriangulation.
\<close>

theorem two_points_edge_and_no_dual:
  "delaunay [Point 0 0 10, Point 1 0 11] =
     Some ([Point 0 0 10, Point 1 0 11],
       Inr [((0, 0), \<lparr>center = Point 0 0 10, links = [\<lparr>point = Point 1 0 11, angle = 0\<rparr>]\<rparr>),
            ((1, 0), \<lparr>center = Point 1 0 11, links = [\<lparr>point = Point 0 0 10, angle = pi\<rparr>]\<rparr>)])
   \<and> delaunay [Point 1 0 11, Point 0 0 10] =
     Some ([Point 0 0 10, Point 1 0 11],
       Inr [((0, 0), \<lparr>center = Point 0 0 10, links = [\<lparr>point = Point 1 0 11, angle = 0\<rparr>]\<rparr>),
            ((1, 0), \<lparr>center = Point 1 0 11, links = [\<lparr>point = Point 0 0 10, angle = pi\<rparr>]\<rparr>)])
   \<and> rightTriangle
        [((0, 0), \<lparr>center = Point 0 0 10, links = [\<lparr>point = Point 1 0 11, angle = 0\<rparr>]\<rparr>),
         ((1, 0), \<lparr>center = Point 1 0 11, links = [\<lparr>point = Point 0 0 10, angle = pi\<rparr>]\<rparr>)]
        (Point 0 0 10) (Point 1 0 11) = Inr None
   \<and> rightTriangle
        [((0, 0), \<lparr>center = Point 0 0 10, links = [\<lparr>point = Point 1 0 11, angle = 0\<rparr>]\<rparr>),
         ((1, 0), \<lparr>center = Point 1 0 11, links = [\<lparr>point = Point 0 0 10, angle = pi\<rparr>]\<rparr>)]
        (Point 1 0 11) (Point 0 0 10) = Inr None
   \<and> (\<forall>fuel. dual fuel
        [((0, 0), \<lparr>center = Point 0 0 10, links = [\<lparr>point = Point 1 0 11, angle = 0\<rparr>]\<rparr>),
         ((1, 0), \<lparr>center = Point 1 0 11, links = [\<lparr>point = Point 0 0 10, angle = pi\<rparr>]\<rparr>)]
        = Some (Inl MalformedTriangulation))"
proof (intro conjI allI)
  show "delaunay [Point 0 0 10, Point 1 0 11] =
     Some ([Point 0 0 10, Point 1 0 11],
       Inr [((0, 0), \<lparr>center = Point 0 0 10, links = [\<lparr>point = Point 1 0 11, angle = 0\<rparr>]\<rparr>),
            ((1, 0), \<lparr>center = Point 1 0 11, links = [\<lparr>point = Point 0 0 10, angle = pi\<rparr>]\<rparr>)])"
    by (rule delaunay_two_points)
  show "delaunay [Point 1 0 11, Point 0 0 10] =
     Some ([Point 0 0 10, Point 1 0 11],
       Inr [((0, 0), \<lparr>center = Point 0 0 10, links = [\<lparr>point = Point 1 0 11, angle = 0\<rparr>]\<rparr>),
            ((1, 0), \<lparr>center = Point 1 0 11, links = [\<lparr>point = Point 0 0 10, angle = pi\<rparr>]\<rparr>)])"
    by (rule delaunay_two_points_swapped)
qed (simp_all add: dual_def randomTriangle_def lookup_defs atan2_values)

lemma delaunay_three_points:
  "delaunay [Point 0 0 10, Point 1 0 11, Point 0 1 12] =
     Some ([Point 0 0 10, Point 0 1 12, Point 1 0 11],
       Inr [((0, 0), \<lparr>center = Point 0 0 10,
                       links = [\<lparr>point = Point 1 0 11, angle = 0\<rparr>,
                                \<lparr>point = Point 0 1 12, angle = pi / 2\<rparr>]\<rparr>),
            ((0, 1), \<lparr>center = Point 0 1 12,
                       links = [\<lparr>point = Point 0 0 10, angle = - (pi / 2)\<rparr>,
                                \<lparr>point = Point 1 0 11, angle = - (pi / 4)\<rparr>]\<rparr>),
            ((1, 0), \<lparr>center = Point 1 0 11,
                       links = [\<lparr>point = Point 0 1 12, angle = 3 * pi / 4\<rparr>,
                                \<lparr>point = Point 0 0 10, angle = pi\<rparr>]\<rparr>)])"
  by (simp add: delaunay.simps build_defs atan2_values pi_facts)

text \<open>The map \<open>delaunay\<close> returns on the corners of the triangle \<open>(0,0)\<close>, \<open>(1,0)\<close>,
  \<open>(0,1)\<close>.\<close>

lemma triangle_right_triangles:
  fixes m :: Connections
  assumes "m =
       [((0, 0), \<lparr>center = Point 0 0 10,
                       links = [\<lparr>point = Point 1 0 11, angle = 0\<rparr>,
                                \<lparr>point = Point 0 1 12, angle = pi / 2\<rparr>]\<rparr>),
            ((0, 1), \<lparr>center = Point 0 1 12,
                       links = [\<lparr>point = Point 0 0 10, angle = - (pi / 2)\<rparr>,
                                \<lparr>point = Point 1 0 11, angle = - (pi / 4)\<rparr>]\<rparr>),
            ((1, 0), \<lparr>center = Point 1 0 11,
                       links = [\<lparr>point = Point 0 1 12, angle = 3 * pi / 4\<rparr>,
                                \<lparr>point = Point 0 0 10, angle = pi\<rparr>]\<rparr>)]"
  shows "randomTriangle m = Inr (Point 1 0 11, Point 0 0 10, Point 0 1 12)"
    and "rightTriangle m (Point 1 0 11) (Point 0 0 10) =
           Inr (Some (Point 0 0 10, Point 1 0 11, Point 0 1 12))"
    and "rightTriangle m (Point 0 0 10) (Point 0 1 12) =
           Inr (Some (Point 0 1 12, Point 0 0 10, Point 1 0 11))"
    and "rightTriangle m (Point 0 1 12) (Point 1 0 11) =
           Inr (Some (Point 1 0 11, Point 0 1 12, Point 0 0 10))"
    and "first_fresh m = 13"
  unfolding assms
  by (simp_all add: randomTriangle_def lookup_defs atan2_values pi_facts first_fresh_def)

lemma triangle_centers:
  "centerOf (Point 1 0 11) (Point 0 0 10) (Point 0 1 12) n = Point (1 / 2) (1 / 2) n"
  "centerOf (Point 0 0 10) (Point 1 0 11) (Point 0 1 12) n = Point (1 / 2) (1 / 2) n"
  "centerOf (Point 0 1 12) (Point 0 0 10) (Point 1 0 11) n = Point (1 / 2) (1 / 2) n"
  "centerOf (Point 1 0 11) (Point 0 1 12) (Point 0 0 10) n = Point (1 / 2) (1 / 2) n"
  by (simp_all add: centerOf_def det_3 det3_def norm2_def)

text \<open>
  Claim C2.  On the corners of the triangle \<open>(0,0)\<close>, \<open>(1,0)\<close>, \<open>(0,1)\<close>, \<open>delaunay\<close>
  returns the three edges of the triangle, each as two links.  On that map, \<open>rightTriangle\<close>
  finds a triangle on both sides of every edge (every corner has two neighbours only, so the
  next and the previous link of a ring are the same), \<open>_dual\<close> takes the triangle for its
  own neighbour three times, and the ring of the one circumcenter \<open>(1/2, 1/2)\<close> that
  \<open>dual\<close> returns holds six links to that circumcenter itself.
\<close>

theorem triangle_dual_has_self_links:
  "delaunay [Point 0 0 10, Point 1 0 11, Point 0 1 12] =
     Some ([Point 0 0 10, Point 0 1 12, Point 1 0 11],
       Inr [((0, 0), \<lparr>center = Point 0 0 10,
                       links = [\<lparr>point = Point 1 0 11, angle = 0\<rparr>,
                                \<lparr>point = Point 0 1 12, angle = pi / 2\<rparr>]\<rparr>),
            ((0, 1), \<lparr>center = Point 0 1 12,
                       links = [\<lparr>point = Point 0 0 10, angle = - (pi / 2)\<rparr>,
                                \<lparr>point = Point 1 0 11, angle = - (pi / 4)\<rparr>]\<rparr>),
            ((1, 0), \<lparr>center = Point 1 0 11,
                       links = [\<lparr>point = Point 0 1 12, angle = 3 * pi / 4\<rparr>,
                                \<lparr>point = Point 0 0 10, angle = pi\<rparr>]\<rparr>)])
   \<and> (\<forall>n. dual (Suc (Suc n))
         [((0, 0), \<lparr>center = Point 0 0 10,
                       links = [\<lparr>point = Point 1 0 11, angle = 0\<rparr>,
                                \<lparr>point = Point 0 1 12, angle = pi / 2\<rparr>]\<rparr>),
            ((0, 1), \<lparr>center = Point 0 1 12,
                       links = [\<lparr>point = Point 0 0 10, angle = - (pi / 2)\<rparr>,
                                \<lparr>point = Point 1 0 11, angle = - (pi / 4)\<rparr>]\<rparr>),
            ((1, 0), \<lparr>center = Point 1 0 11,
                       links = [\<lparr>point = Point 0 1 12, angle = 3 * pi / 4\<rparr>,
                                \<lparr>point = Point 0 0 10, angle = pi\<rparr>]\<rparr>)]
       = Some (Inr [((1 / 2, 1 / 2),
            \<lparr>center = Point (1 / 2) (1 / 2) 13,
             links = [\<lparr>point = Point (1 / 2) (1 / 2) 14, angle = 0\<rparr>,
                      \<lparr>point = Point (1 / 2) (1 / 2) 13, angle = 0\<rparr>,
                      \<lparr>point = Point (1 / 2) (1 / 2) 16, angle = 0\<rparr>,
                      \<lparr>point = Point (1 / 2) (1 / 2) 13, angle = 0\<rparr>,
                      \<lparr>point = Point (1 / 2) (1 / 2) 18, angle = 0\<rparr>,
                      \<lparr>point = Point (1 / 2) (1 / 2) 13, angle = 0\<rparr>]\<rparr>)]))"
proof (intro conjI allI)
  show "delaunay [Point 0 0 10, Point 1 0 11, Point 0 1 12] =
     Some ([Point 0 0 10, Point 0 1 12, Point 1 0 11],
       Inr [((0, 0), \<lparr>center = Point 0 0 10,
                       links = [\<lparr>point = Point 1 0 11, angle = 0\<rparr>,
                                \<lparr>point = Point 0 1 12, angle = pi / 2\<rparr>]\<rparr>),
            ((0, 1), \<lparr>center = Point 0 1 12,
                       links = [\<lparr>point = Point 0 0 10, angle = - (pi / 2)\<rparr>,
                                \<lparr>point = Point 1 0 11, angle = - (pi / 4)\<rparr>]\<rparr>),
            ((1, 0), \<lparr>center = Point 1 0 11,
                       links = [\<lparr>point = Point 0 1 12, angle = 3 * pi / 4\<rparr>,
                                \<lparr>point = Point 0 0 10, angle = pi\<rparr>]\<rparr>)])"
    by (rule delaunay_three_points)
qed (simp add: dual_def triangle_right_triangles [OF refl] triangle_centers
       List.map_filter_simps addPoint_def build_defs atan2_values)

section \<open>What a call of \<open>delaunay\<close> changes\<close>







section \<open>The symmetry of the adjacency map\<close>


lemma addConnection_Some: "addConnection p (Some r) = Inr (with_link p r)"
  by (simp add: addConnection_def with_link_def minus_pt_def Let_def)

lemma addConnection_None: "addConnection p None = Inl TypeError"
  by (simp add: addConnection_def)



lemma connect_Inr:
  assumes "connect p q c = Inr c'"
  obtains rp rq where "map_of c (id_pt p) = Some rp"
    and "((map_of c)(id_pt p \<mapsto> with_link q rp)) (id_pt q) = Some rq"
    and "map_of c' = (map_of c)(id_pt p \<mapsto> with_link q rp, id_pt q \<mapsto> with_link p rq)"
proof -
  obtain rp where rp: "map_of c (id_pt p) = Some rp"
    using assms by (cases "map_of c (id_pt p)") (auto simp: connect_def addConnection_None)
  let ?c1 = "AList.update (id_pt p) (with_link q rp) c"
  obtain rq where rq: "map_of ?c1 (id_pt q) = Some rq"
    using assms rp
    by (cases "map_of ?c1 (id_pt q)")
       (auto simp: connect_def addConnection_None addConnection_Some Let_def)
  have "c' = AList.update (id_pt q) (with_link p rq) ?c1"
    using assms rp rq by (simp add: connect_def addConnection_Some Let_def)
  then have "map_of c' = (map_of c)(id_pt p \<mapsto> with_link q rp, id_pt q \<mapsto> with_link p rq)"
    by (simp add: AList.update_conv')
  with rp rq that show thesis
    by (simp add: AList.update_conv')
qed


lemma targets_with_link: "point ` set (links (with_link p r)) = insert p (point ` set (links r))"
  by (simp add: with_link_def)


lemma connect_targets:
  assumes "connect p q c = Inr c'"
  shows "ring_targets c' k =
           ring_targets c k \<union> (if k = id_pt p then {q} else {}) \<union> (if k = id_pt q then {p} else {})"
    and "dom (map_of c') = dom (map_of c)"
    and "id_pt p \<in> dom (map_of c)" and "id_pt q \<in> dom (map_of c)"
proof -
  from assms obtain rp rq where rp: "map_of c (id_pt p) = Some rp"
    and rq: "((map_of c)(id_pt p \<mapsto> with_link q rp)) (id_pt q) = Some rq"
    and c': "map_of c' = (map_of c)(id_pt p \<mapsto> with_link q rp, id_pt q \<mapsto> with_link p rq)"
    by (rule connect_Inr)
  show "ring_targets c' k =
           ring_targets c k \<union> (if k = id_pt p then {q} else {}) \<union> (if k = id_pt q then {p} else {})"
  proof (cases "id_pt q = id_pt p")
    case True
    with rq have "rq = with_link q rp"
      by simp
    with True rp show ?thesis
      unfolding ring_targets_def c' by (simp add: targets_with_link insert_commute)
  next
    case False
    with rp rq show ?thesis
      unfolding ring_targets_def c' by (simp add: targets_with_link)
  qed
  show "id_pt p \<in> dom (map_of c)"
    using rp by auto
  show "id_pt q \<in> dom (map_of c)"
    using rp rq by (auto split: if_splits)
  then show "dom (map_of c') = dom (map_of c)"
    using rp unfolding c' by auto
qed





section \<open>The rings stay well formed\<close>





















section \<open>The invariant of the maps \<open>delaunay\<close> builds\<close>

lemma update_new: "k \<notin> fst ` set al \<Longrightarrow> AList.update k v al = al @ [(k, v)]"
  by (induction al) auto



lemma emptyConnections_foldl:
  "distinct (map fst acc @ map id_pt pts) \<Longrightarrow>
     foldl (\<lambda>connections pt. AList.update (id_pt pt) \<lparr>center = pt, links = []\<rparr> connections)
       acc pts = acc @ map (\<lambda>pt. (id_pt pt, \<lparr>center = pt, links = []\<rparr>)) pts"
proof (induction pts arbitrary: acc)
  case Nil
  then show ?case by simp
next
  case (Cons pt pts)
  from Cons.prems have "id_pt pt \<notin> fst ` set acc"
    by auto
  then have "AList.update (id_pt pt) \<lparr>center = pt, links = []\<rparr> acc
      = acc @ [(id_pt pt, \<lparr>center = pt, links = []\<rparr>)]"
    by (rule update_new)
  moreover from Cons.prems
  have "distinct (map fst (acc @ [(id_pt pt, \<lparr>center = pt, links = []\<rparr>)]) @ map id_pt pts)"
    by simp
  ultimately show ?case
    using Cons.IH [of "acc @ [(id_pt pt, \<lparr>center = pt, links = []\<rparr>)]"] by simp
qed

lemma emptyConnections_map:
  "distinct (map id_pt pts) \<Longrightarrow>
     emptyConnections pts = map (\<lambda>pt. (id_pt pt, \<lparr>center = pt, links = []\<rparr>)) pts"
  unfolding emptyConnections_def using emptyConnections_foldl [of "[]" pts] by simp



lemma mesh_inv_mono: "mesh_inv P c \<Longrightarrow> P \<subseteq> Q \<Longrightarrow> mesh_inv Q c"
  unfolding mesh_inv_def by blast


lemma ring_targets_dom: "u \<in> ring_targets c k \<Longrightarrow> k \<in> dom (map_of c)"
  by (auto simp: ring_targets_def split: option.splits)











lemma distinct_px_id: "distinct (map px pts) \<Longrightarrow> distinct (map id_pt pts)"
proof -
  assume "distinct (map px pts)"
  then have "distinct (map (fst \<circ> id_pt) pts)"
    by (simp add: comp_def id_pt_def)
  then have "distinct pts" "inj_on (fst \<circ> id_pt) (set pts)"
    by (simp_all add: distinct_map)
  then show ?thesis
    by (simp add: distinct_map inj_on_imageI2)
qed



section \<open>The claims on the invariants\<close>













section \<open>The errors \<open>delaunay\<close> raises\<close>

text \<open>Every error of the merge is a TypeError, so \<open>delaunay\<close> raises InsufficientPoints
  on fewer than two points only.\<close>

lemma connect_error: "connect p q c = Inl e \<Longrightarrow> e = TypeError"
  by (auto simp: connect_def addConnection_def Let_def split: sum.splits option.splits)

lemma disconnect_error: "disconnect p q c = Inl e \<Longrightarrow> e = TypeError"
  by (auto simp: disconnect_def removeConnection_def Let_def split: sum.splits option.splits)

lemma nextConnectionAbove_error: "nextConnectionAbove p ring d line = Inl e \<Longrightarrow> e = TypeError"
  by (auto simp: nextConnectionAbove_def split: sum.splits dest: nextConnection_error)

lemma tangent_loop_error:
  assumes "tangent_loop c left right nl nr = Some res"
  shows "\<forall>e. res = Inl e \<longrightarrow> e = TypeError"
  using assms
proof (induction rule: tangent_loop.raw_induct [rotated 1, consumes 1])
  case (1 tl c left right nl nr res)
  show ?case
  proof (intro allI impI)
    fix e assume res: "res = Inl e"
    show "e = TypeError"
    proof (cases "belowLine nl (left, right)")
      case True
      show ?thesis
      proof (cases "nextConnection (PointRef left) (map_of c (id_pt nl)) (- 1)")
        case (Inl e')
        with True 1(2) res show ?thesis
          by (auto dest: nextConnection_error)
      next
        case (Inr n)
        with True 1(2) have "tl c nl right n nr = Some res"
          by simp
        from 1(1) [OF this] res show ?thesis
          by blast
      qed
    next
      case False
      show ?thesis
      proof (cases "belowLine nr (left, right)")
        case True
        show ?thesis
        proof (cases "nextConnection (PointRef right) (map_of c (id_pt nr)) 1")
          case (Inl e')
          with True False 1(2) res show ?thesis
            by (auto dest: nextConnection_error)
        next
          case (Inr n)
          with True False 1(2) have "tl c left nr nl n = Some res"
            by simp
          from 1(1) [OF this] res show ?thesis
            by blast
        qed
      next
        case nr: False
        with False 1(2) res show ?thesis
          by simp
      qed
    qed
  qed
qed

lemma prune_error:
  assumes "prune owner d left right c cand nxt = Some res"
  shows "\<forall>e. res = Inl e \<longrightarrow> e = TypeError"
  using assms
proof (induction rule: prune.raw_induct [rotated 1, consumes 1])
  case (1 pr owner d left right c cand nxt res)
  show ?case
  proof (intro allI impI)
    fix e assume res: "res = Inl e"
    show "e = TypeError"
    proof (cases nxt)
      case None
      with 1(2) res show ?thesis
        by simp
    next
      case (Some n)
      show ?thesis
      proof (cases "inCircle n (left, right, cand)")
        case False
        with Some 1(2) res show ?thesis
          by simp
      next
        case True
        show ?thesis
        proof (cases "disconnect owner cand c")
          case (Inl e')
          with True Some 1(2) res show ?thesis
            by (auto dest: disconnect_error)
        next
          case (Inr c1)
          show ?thesis
          proof (cases "nextConnectionAbove (PointRef n) (map_of c1 (id_pt owner)) d (left, right)")
            case (Inl e')
            with Inr True Some 1(2) res show ?thesis
              by (auto dest: nextConnectionAbove_error)
          next
            case n': (Inr n')
            with Inr True Some 1(2) have "pr owner d left right c1 n n' = Some res"
              by simp
            from 1(1) [OF this] res show ?thesis
              by blast
          qed
        qed
      qed
    qed
  qed
qed

lemma candidate_error:
  assumes "candidate owner d other left right c = Some (Inl e)"
  shows "e = TypeError"
proof (cases "nextConnectionAbove (PointRef other) (map_of c (id_pt owner)) d (left, right)")
  case (Inl e')
  with assms show ?thesis
    by (auto simp: candidate_def dest: nextConnectionAbove_error)
next
  case (Inr first)
  show ?thesis
  proof (cases first)
    case None
    with Inr assms show ?thesis
      by (simp add: candidate_def)
  next
    case (Some cd)
    show ?thesis
    proof (cases "nextConnectionAbove (PointRef cd) (map_of c (id_pt owner)) d (left, right)")
      case (Inl e')
      with Inr Some assms show ?thesis
        by (auto simp: candidate_def dest: nextConnectionAbove_error)
    next
      case n: (Inr n)
      with Inr Some assms have "prune owner d left right c cd n = Some (Inl e)"
        by (auto simp: candidate_def split: option.splits sum.splits)
      from prune_error [OF this] show ?thesis
        by blast
    qed
  qed
qed

lemma merge_loop_error:
  assumes "merge_loop c left right = Some res"
  shows "\<forall>e. res = Inl e \<longrightarrow> e = TypeError"
  using assms
proof (induction rule: merge_loop.raw_induct [rotated 1, consumes 1])
  case (1 ml c left right res)
  show ?case
  proof (intro allI impI)
    fix e assume res: "res = Inl e"
    from 1(2) obtain r1 where r1: "candidate left 1 right left right c = Some r1"
      by (auto split: option.splits)
    show "e = TypeError"
    proof (cases r1)
      case (Inl e')
      with r1 1(2) res candidate_error [of left 1 right left right c e'] show ?thesis
        by simp
    next
      case (Inr a)
      obtain c1 lc where a: "a = (c1, lc)"
        by (cases a)
      from 1(2) r1 Inr a obtain r2 where r2: "candidate right (- 1) left left right c1 = Some r2"
        by (auto split: option.splits)
      show ?thesis
      proof (cases r2)
        case (Inl e')
        with r1 \<open>r1 = Inr a\<close> a r2 1(2) res
          candidate_error [of right "- 1" left left right c1 e'] show ?thesis
          by simp
      next
        case b: (Inr b)
        obtain c2 rc where b': "b = (c2, rc)"
          by (cases b)
        show ?thesis
        proof (cases "lc = None \<and> rc = None")
          case True
          with r1 Inr a r2 b b' 1(2) res show ?thesis
            by simp
        next
          case False
          from False r1 Inr a r2 b b' 1(2)
          have "\<exists>left' right'.
                  (case connect left' right' c2 of Inl e \<Rightarrow> Some (Inl e)
                   | Inr c3 \<Rightarrow> ml c3 left' right') = Some res"
          proof (cases lc; cases rc)
            fix l r assume lr: "lc = Some l" "rc = Some r"
            show ?thesis
            proof (cases "inCircle r (l, left, right)")
              case True
              with lr False r1 Inr a r2 b b' 1(2)
              have "(case connect left r c2 of Inl e \<Rightarrow> Some (Inl e)
                     | Inr c3 \<Rightarrow> ml c3 left r) = Some res"
                by (simp add: Let_def cong: sum.case_cong)
              then show ?thesis
                by (intro exI)
            next
              case nc: False
              with lr False r1 Inr a r2 b b' 1(2)
              have "(case connect l right c2 of Inl e \<Rightarrow> Some (Inl e)
                     | Inr c3 \<Rightarrow> ml c3 l right) = Some res"
                by (simp add: Let_def cong: sum.case_cong)
              then show ?thesis
                by (intro exI)
            qed
          next
            fix l assume "lc = Some l" "rc = None"
            with False r1 Inr a r2 b b' 1(2)
            have "(case connect l right c2 of Inl e \<Rightarrow> Some (Inl e)
                   | Inr c3 \<Rightarrow> ml c3 l right) = Some res"
              by (simp add: Let_def cong: sum.case_cong)
            then show ?thesis
              by (intro exI)
          next
            fix r assume "lc = None" "rc = Some r"
            with False r1 Inr a r2 b b' 1(2)
            have "(case connect left r c2 of Inl e \<Rightarrow> Some (Inl e)
                   | Inr c3 \<Rightarrow> ml c3 left r) = Some res"
              by (simp add: Let_def cong: sum.case_cong)
            then show ?thesis
              by (intro exI)
          next
            assume "lc = None" "rc = None"
            with False show ?thesis
              by simp
          qed
          then obtain left' right' where
            body: "(case connect left' right' c2 of Inl e \<Rightarrow> Some (Inl e)
                        | Inr c3 \<Rightarrow> ml c3 left' right') = Some res"
            by blast
          show ?thesis
          proof (cases "connect left' right' c2")
            case (Inl e')
            with body res show ?thesis
              by (auto dest: connect_error)
          next
            case c3: (Inr c3)
            with body have "ml c3 left' right' = Some res"
              by simp
            from 1(1) [OF this] res show ?thesis
              by blast
          qed
        qed
      qed
    qed
  qed
qed

lemma merge_halves_error:
  assumes "merge_halves lp rp lc rc = Some (Inl e)"
  shows "e = TypeError"
proof (cases "lp = [] \<or> rp = []")
  case True
  with assms show ?thesis
    by (auto simp: merge_halves_def)
next
  case False
  let ?c = "mergeConnections lc rc"
  let ?l = "lp ! (length lp - 1)" and ?r = "rp ! 0"
  show ?thesis
  proof (cases "nextConnection (Angle 0) (map_of ?c (id_pt ?l)) (- 1)")
    case (Inl e')
    with False assms show ?thesis
      by (auto simp: merge_halves_def Let_def dest: nextConnection_error)
  next
    case nl: (Inr nl)
    show ?thesis
    proof (cases "nextConnection (Angle (- pi)) (map_of ?c (id_pt ?r)) 1")
      case (Inl e')
      with nl False assms show ?thesis
        by (auto simp: merge_halves_def Let_def dest: nextConnection_error)
    next
      case nr: (Inr nr)
      from nl nr False assms obtain t where t: "tangent_loop ?c ?l ?r nl nr = Some t"
        by (auto simp: merge_halves_def Let_def split: option.splits)
      show ?thesis
      proof (cases t)
        case (Inl e')
        with t nl nr False assms tangent_loop_error [OF t] show ?thesis
          by (auto simp: merge_halves_def Let_def)
      next
        case (Inr lr)
        obtain l' r' where lr: "lr = (l', r')"
          by (cases lr)
        show ?thesis
        proof (cases "connect l' r' ?c")
          case (Inl e')
          with Inr lr t nl nr False assms show ?thesis
            by (auto simp: merge_halves_def Let_def dest: connect_error)
        next
          case c1: (Inr c1)
          with Inr lr t nl nr False assms have "merge_loop c1 l' r' = Some (Inl e)"
            by (auto simp: merge_halves_def Let_def)
          from merge_loop_error [OF this] show ?thesis
            by blast
        qed
      qed
    qed
  qed
qed

lemma delaunay_error:
  "delaunay pts = Some (pts', Inl e) \<Longrightarrow>
     (if length pts < 2 then e = InsufficientPoints else e = TypeError)"
proof (induction pts arbitrary: pts' e rule: length_induct)
  case (1 pts)
  let ?s = "sort_key px pts"
  show ?case
  proof (cases "length pts < 2")
    case True
    with "1.prems" show ?thesis
      by (subst (asm) delaunay.simps) simp
  next
    case False
    consider "length pts = 2" | "length pts = 3" | "length pts \<noteq> 2" "length pts \<noteq> 3"
      by blast
    then have "e = TypeError"
    proof cases
      case 1
      with False "1.prems" show ?thesis
        by (subst (asm) delaunay.simps) (auto simp: Let_def dest: connect_error)
    next
      case 2
      with False "1.prems" show ?thesis
        by (subst (asm) delaunay.simps)
           (auto simp: Let_def split: sum.splits dest: connect_error)
    next
      case 3
      define mid where "mid = length pts div 2"
      have l4: "4 \<le> length pts"
        using 3 False by simp
      then have lt: "length (take mid ?s) < length pts" "length (drop mid ?s) < length pts"
        and ge: "\<not> length (take mid ?s) < 2" "\<not> length (drop mid ?s) < 2"
        unfolding mid_def by simp_all
      from "1.prems" 3 False have
        body: "(case delaunay (take mid ?s) of None \<Rightarrow> None
                | Some (leftPts, Inl e) \<Rightarrow> Some (?s, Inl e)
                | Some (leftPts, Inr leftConnections) \<Rightarrow>
                    (case delaunay (drop mid ?s) of None \<Rightarrow> None
                     | Some (rightPts, Inl e) \<Rightarrow> Some (?s, Inl e)
                     | Some (rightPts, Inr rightConnections) \<Rightarrow>
                         (case merge_halves leftPts rightPts leftConnections rightConnections of
                            None \<Rightarrow> None
                          | Some result \<Rightarrow> Some (?s, result)))) = Some (pts', Inl e)"
        unfolding mid_def by (subst (asm) delaunay.simps) (simp add: Let_def)
      then obtain lp lres where dl: "delaunay (take mid ?s) = Some (lp, lres)"
        by (auto split: option.splits)
      show ?thesis
      proof (cases lres)
        case (Inl e')
        with dl body have "e' = e"
          by simp
        moreover from "1.IH" lt(1) dl Inl
        have "if length (take mid ?s) < 2 then e' = InsufficientPoints else e' = TypeError"
          by blast
        ultimately show ?thesis
          using ge(1) by simp
      next
        case lc: (Inr lc)
        with dl body obtain rp rres where dr: "delaunay (drop mid ?s) = Some (rp, rres)"
          by (auto split: option.splits)
        show ?thesis
        proof (cases rres)
          case (Inl e')
          with dl lc dr body have "e' = e"
            by simp
          moreover from "1.IH" lt(2) dr Inl
          have "if length (drop mid ?s) < 2 then e' = InsufficientPoints else e' = TypeError"
            by blast
          ultimately show ?thesis
            using ge(2) by simp
        next
          case rc: (Inr rc)
          with dl lc dr body have "merge_halves lp rp lc rc = Some (Inl e)"
            by (auto split: option.splits)
          then show ?thesis
            by (rule merge_halves_error)
        qed
      qed
    qed
    with False show ?thesis
      by simp
  qed
qed

lemma delaunay_insufficient_iff:
  "(\<exists>pts'. delaunay pts = Some (pts', Inl InsufficientPoints)) \<longleftrightarrow> length pts < 2"
proof
  assume "\<exists>pts'. delaunay pts = Some (pts', Inl InsufficientPoints)"
  then obtain pts' where "delaunay pts = Some (pts', Inl InsufficientPoints)"
    by blast
  from delaunay_error [OF this] show "length pts < 2"
    by (auto split: if_splits)
next
  assume "length pts < 2"
  then show "\<exists>pts'. delaunay pts = Some (pts', Inl InsufficientPoints)"
    by (subst delaunay.simps) simp
qed

text \<open>On two or three points of pairwise distinct \<open>x\<close> the call returns a map.\<close>

lemma connect_returns:
  "id_pt p \<in> dom (map_of c) \<Longrightarrow> id_pt q \<in> dom (map_of c) \<Longrightarrow> \<exists>c'. connect p q c = Inr c'"
  by (auto simp: connect_def addConnection_def Let_def AList.update_conv'
        split: sum.splits option.splits)

lemma emptyConnections_dom:
  "distinct (map id_pt pts) \<Longrightarrow> dom (map_of (emptyConnections pts)) = id_pt ` set pts"
  by (simp add: emptyConnections_map dom_map_of_conv_image_fst image_image)

lemma delaunay_small_returns:
  assumes "length pts = 2 \<or> length pts = 3" and "distinct (map px pts)"
  shows "\<exists>m. delaunay pts = Some (sort_key px pts, Inr m)"
proof -
  let ?s = "sort_key px pts"
  have di: "distinct (map id_pt ?s)"
    using assms(2) by (intro distinct_px_id) (simp add: distinct_map)
  have dom: "dom (map_of (emptyConnections ?s)) = id_pt ` set pts"
    using emptyConnections_dom [OF di] by simp
  have mem: "i < length pts \<Longrightarrow> id_pt (?s ! i) \<in> id_pt ` set pts" for i
    by (metis imageI length_sort nth_mem set_sort)
  from assms(1) show ?thesis
  proof
    assume 2: "length pts = 2"
    then obtain m where "connect (?s ! 0) (?s ! 1) (emptyConnections ?s) = Inr m"
      using connect_returns [of "?s ! 0" "emptyConnections ?s" "?s ! 1"] dom mem by auto
    with 2 show ?thesis
      by (subst delaunay.simps) (simp add: Let_def)
  next
    assume 3: "length pts = 3"
    then obtain c1 where c1: "connect (?s ! 0) (?s ! 1) (emptyConnections ?s) = Inr c1"
      using connect_returns [of "?s ! 0" "emptyConnections ?s" "?s ! 1"] dom mem by auto
    have d1: "dom (map_of c1) = id_pt ` set pts"
      using connect_targets(2) [OF c1] dom by simp
    with 3 obtain c2 where c2: "connect (?s ! 1) (?s ! 2) c1 = Inr c2"
      using connect_returns [of "?s ! 1" c1 "?s ! 2"] mem by auto
    have d2: "dom (map_of c2) = id_pt ` set pts"
      using connect_targets(2) [OF c2] d1 by simp
    with 3 obtain m where "connect (?s ! 2) (?s ! 0) c2 = Inr m"
      using connect_returns [of "?s ! 2" c2 "?s ! 0"] mem by auto
    with 3 c1 c2 show ?thesis
      by (subst delaunay.simps) (simp add: Let_def)
  qed
qed

end
